theory Spec2Isabelle
  imports Main "HOL-Library.Char_ord" "HOL-Library.List_Lexorder" "HOL-Library.AList"
begin

section \<open>Line aligner: data model\<close>

text \<open>
  The \<^verbatim>\<open>DiffLine\<close> interface of the workspace component: the classification of a line,
  its text and its 1-based position on its own side. The source always sets
  \<^verbatim>\<open>lineNumber\<close>, so the optional field is a plain number here.
\<close>

datatype DiffType = Unchanged | Added | Removed | ModifiedOld | ModifiedNew

record DiffLine =
  type :: DiffType
  content :: string
  lineNumber :: nat

text \<open>The three local variables of \<^verbatim>\<open>computeLineDiff\<close> that the loop mutates.\<close>

record DiffState =
  result :: "DiffLine list"
  leftIdx :: nat
  rightIdx :: nat

definition initialDiffState :: DiffState where
  "initialDiffState = \<lparr>result = [], leftIdx = 0, rightIdx = 0\<rparr>"

section \<open>Line aligner: the algorithm\<close>

text \<open>
  Reading an array element: \<^verbatim>\<open>lines[i]\<close> is \<^verbatim>\<open>undefined\<close> (here \<open>None\<close>) when
  \<^verbatim>\<open>i\<close> is not below the length.
\<close>

definition lineAt :: "string list \<Rightarrow> nat \<Rightarrow> string option" where
  "lineAt lines i = (if i < length lines then Some (lines ! i) else None)"

text \<open>
  The inner lookahead loop
  \<^verbatim>\<open>for (let i = start; i < bound; i++) { if (lines[i] === target) { found = true; break } }\<close>
  as a function returning the final value of the flag.
\<close>

function scanAhead :: "string list \<Rightarrow> string option \<Rightarrow> nat \<Rightarrow> nat \<Rightarrow> bool" where
  "scanAhead lines target i bound =
     (if i < bound
      then (if lineAt lines i = target then True else scanAhead lines target (Suc i) bound)
      else False)"
  by pat_completeness auto
termination
  by (relation "measure (\<lambda>(lines, target, i, bound). bound - i)") auto

declare scanAhead.simps [simp del]

definition foundInRight :: "string list \<Rightarrow> string list \<Rightarrow> DiffState \<Rightarrow> bool" where
  "foundInRight leftLines rightLines st =
     scanAhead rightLines (lineAt leftLines (leftIdx st)) (rightIdx st + 1)
       (min (rightIdx st + 5) (length rightLines))"

definition foundInLeft :: "string list \<Rightarrow> string list \<Rightarrow> DiffState \<Rightarrow> bool" where
  "foundInLeft leftLines rightLines st =
     scanAhead leftLines (lineAt rightLines (rightIdx st)) (leftIdx st + 1)
       (min (leftIdx st + 5) (length leftLines))"

text \<open>
  \<^verbatim>\<open>result.push({ type, content, lineNumber })\<close>. The pushed line was read with
  \<^verbatim>\<open>lineAt\<close>; every call site below is reached only with its cursor inside its array
  (given the loop condition), so the content is a string there.
\<close>

definition push :: "DiffState \<Rightarrow> DiffType \<Rightarrow> string option \<Rightarrow> nat \<Rightarrow> DiffState" where
  "push st t c n = st\<lparr>result := result st @ [\<lparr>type = t, content = the c, lineNumber = n\<rparr>]\<rparr>"

text \<open>One pass through the body of the \<^verbatim>\<open>while\<close> loop, branch by branch.\<close>

definition diffStep :: "string list \<Rightarrow> string list \<Rightarrow> DiffState \<Rightarrow> DiffState" where
  "diffStep leftLines rightLines st =
     (let leftLine = lineAt leftLines (leftIdx st);
          rightLine = lineAt rightLines (rightIdx st)
      in if leftIdx st \<ge> length leftLines then
           (push st Added rightLine (rightIdx st + 1))\<lparr>rightIdx := rightIdx st + 1\<rparr>
         else if rightIdx st \<ge> length rightLines then
           (push st Removed leftLine (leftIdx st + 1))\<lparr>leftIdx := leftIdx st + 1\<rparr>
         else if leftLine = rightLine then
           (push st Unchanged leftLine (leftIdx st + 1))
             \<lparr>leftIdx := leftIdx st + 1, rightIdx := rightIdx st + 1\<rparr>
         else if \<not> foundInRight leftLines rightLines st \<and> \<not> foundInLeft leftLines rightLines st then
           (push (push st ModifiedOld leftLine (leftIdx st + 1)) ModifiedNew rightLine (rightIdx st + 1))
             \<lparr>leftIdx := leftIdx st + 1, rightIdx := rightIdx st + 1\<rparr>
         else if foundInRight leftLines rightLines st then
           (push st Removed leftLine (leftIdx st + 1))\<lparr>leftIdx := leftIdx st + 1\<rparr>
         else
           (push st Added rightLine (rightIdx st + 1))\<lparr>rightIdx := rightIdx st + 1\<rparr>)"

definition loopCond :: "string list \<Rightarrow> string list \<Rightarrow> DiffState \<Rightarrow> bool" where
  "loopCond leftLines rightLines st =
     (leftIdx st < length leftLines \<or> rightIdx st < length rightLines)"

function diffLoop :: "string list \<Rightarrow> string list \<Rightarrow> DiffState \<Rightarrow> DiffLine list" where
  "diffLoop leftLines rightLines st =
     (if loopCond leftLines rightLines st
      then diffLoop leftLines rightLines (diffStep leftLines rightLines st)
      else result st)"
  by pat_completeness auto
termination
  by (relation "measure (\<lambda>(l, r, st). (length l - leftIdx st) + (length r - rightIdx st))")
     (auto simp: loopCond_def diffStep_def push_def Let_def)

declare diffLoop.simps [simp del]

definition computeLineDiff :: "string list \<Rightarrow> string list \<Rightarrow> DiffLine list" where
  "computeLineDiff leftLines rightLines = diffLoop leftLines rightLines initialDiffState"

section \<open>JSON values and key sorting\<close>

text \<open>
  Strings are lists of characters; a character stands for one code unit of the
  JavaScript string (the code units below 256 are representable). The order on strings
  is the lexicographic order on code units, which is the order that
  \<^verbatim>\<open>Array.prototype.sort\<close> uses without a comparator.

  A value produced by \<^verbatim>\<open>JSON.parse\<close>. Numbers are never inspected by the code
  modelled here, so their type is a parameter. An object is the list of its own
  properties in enumeration order (the order of \<^verbatim>\<open>Object.keys\<close> and of
  \<^verbatim>\<open>JSON.stringify\<close>).
\<close>

datatype 'n json =
    JNull
  | JBool bool
  | JNum 'n
  | JStr string
  | JArr "'n json list"
  | JObj "(string \<times> 'n json) list"

definition isDigit :: "char \<Rightarrow> bool" where
  "isDigit c \<longleftrightarrow> CHR ''0'' \<le> c \<and> c \<le> CHR ''9''"

definition decimalValue :: "string \<Rightarrow> nat" where
  "decimalValue s = foldl (\<lambda>n c. 10 * n + (of_char c - 48)) 0 s"

text \<open>
  A property key is an array index when it is the canonical decimal spelling of an
  integer from 0 to \<open>2^32 - 2\<close>. An ordinary object enumerates its array-index keys
  first, in ascending numeric order, and its other string keys after them, in the order
  in which they were created.
\<close>

definition arrayIndex :: "string \<Rightarrow> nat option" where
  "arrayIndex key =
     (if key \<noteq> [] \<and> list_all isDigit key \<and> (key = ''0'' \<or> hd key \<noteq> CHR ''0'')
         \<and> decimalValue key \<le> 4294967294
      then Some (decimalValue key) else None)"

text \<open>\<^verbatim>\<open>Object.keys(obj)\<close>.\<close>

definition objectKeys :: "(string \<times> 'a) list \<Rightarrow> string list" where
  "objectKeys obj = map fst obj"

text \<open>
  \<^verbatim>\<open>obj[key]\<close> for a key that \<^verbatim>\<open>sortObjectKeys\<close> has taken from
  \<^verbatim>\<open>Object.keys(obj)\<close>, hence an own property of the object.
\<close>

definition objGet :: "(string \<times> 'a) list \<Rightarrow> string \<Rightarrow> 'a" where
  "objGet obj key = the (map_of obj key)"

text \<open>Creating a new array-index property: it goes before the first property that is
  not an array index or is a larger one.\<close>

fun insertIndexed :: "nat \<Rightarrow> string \<Rightarrow> 'a \<Rightarrow> (string \<times> 'a) list \<Rightarrow> (string \<times> 'a) list" where
  "insertIndexed n key v [] = [(key, v)]"
| "insertIndexed n key v ((k, w) # rest) =
     (case arrayIndex k of
        Some m \<Rightarrow> if m < n then (k, w) # insertIndexed n key v rest
                  else (key, v) # (k, w) # rest
      | None \<Rightarrow> (key, v) # (k, w) # rest)"

text \<open>
  The assignment \<^verbatim>\<open>sorted[key] = value\<close> on an object that started as the literal
  \<^verbatim>\<open>{}\<close>. An existing own property keeps its place and takes the new value; a new
  property is created at the place the enumeration order gives it. The key
  \<^verbatim>\<open>__proto__\<close> is the exception: the assignment reaches the accessor inherited from
  \<^verbatim>\<open>Object.prototype\<close>, which replaces the prototype of the object (or does nothing
  for a value that is neither an object nor \<^verbatim>\<open>null\<close>) and creates no own property.
  The prototype is not observed by \<^verbatim>\<open>Object.keys\<close> or \<^verbatim>\<open>JSON.stringify\<close>, so the own
  properties are all that is kept here. (\<^verbatim>\<open>JSON.parse\<close>, in contrast, does create an
  own property named \<^verbatim>\<open>__proto__\<close>.)
\<close>

definition objSet :: "string \<Rightarrow> 'a \<Rightarrow> (string \<times> 'a) list \<Rightarrow> (string \<times> 'a) list" where
  "objSet key v obj =
     (if key = ''__proto__'' then obj
      else if key \<in> set (objectKeys obj) then AList.update key v obj
      else (case arrayIndex key of
              Some n \<Rightarrow> insertIndexed n key v obj
            | None \<Rightarrow> obj @ [(key, v)]))"

text \<open>
  \<^verbatim>\<open>sortObjectKeys\<close>: primitives and \<^verbatim>\<open>null\<close> are returned as they are, an array is
  mapped, and an object is rebuilt by
  \<^verbatim>\<open>Object.keys(obj).sort().reduce((sorted, key) => { sorted[key] = sortObjectKeys(obj[key]); return sorted }, {})\<close>.
\<close>

function sortObjectKeys :: "'n json \<Rightarrow> 'n json" where
  "sortObjectKeys JNull = JNull"
| "sortObjectKeys (JBool b) = JBool b"
| "sortObjectKeys (JNum n) = JNum n"
| "sortObjectKeys (JStr s) = JStr s"
| "sortObjectKeys (JArr xs) = JArr (map sortObjectKeys xs)"
| "sortObjectKeys (JObj obj) =
     JObj (fold (\<lambda>key sorted. objSet key (sortObjectKeys (objGet obj key)) sorted)
                (sort (objectKeys obj)) [])"
  by pat_completeness auto
termination
proof (relation "measure size")
  show "wf (measure size)" by simp
next
  fix xs :: "'n json list" and x
  assume "x \<in> set xs"
  then have "size x < Suc (size_list size xs)"
    by (induction xs) auto
  then show "(x, JArr xs) \<in> measure size" by simp
next
  fix obj :: "(string \<times> 'n json) list" and key
  assume "key \<in> set (sort (objectKeys obj))"
  then obtain v where "(key, v) \<in> set obj" by (auto simp: objectKeys_def)
  then have "size (objGet obj key) < Suc (size_list (size_prod (\<lambda>_. 0) size) obj)"
    unfolding objGet_def by (induction obj) auto
  then show "(objGet obj key, JObj obj) \<in> measure size" by simp
qed

text \<open>
  The beautify presets and \<^verbatim>\<open>formatJson\<close>. \<^verbatim>\<open>JSON.stringify\<close> belongs to the
  platform and is a parameter: it takes the value and the indentation, \<open>None\<close> standing
  for \<^verbatim>\<open>undefined\<close>.
\<close>

datatype indentSpec = IndentWidth nat | IndentText string

record FormatPreset =
  name :: string
  indent :: indentSpec
  sortKeys :: bool

definition formatJson ::
  "('n json \<Rightarrow> indentSpec option \<Rightarrow> string) \<Rightarrow> 'n json \<Rightarrow> indentSpec \<Rightarrow> string" where
  "formatJson stringify v ind =
     (let ind' = (if ind = IndentWidth 0 then None else Some ind) in stringify v ind')"

text \<open>
  What the beautifier does with a value once \<^verbatim>\<open>JSON.parse\<close> has returned it: sort the
  keys when the preset asks for it, then serialise with the preset's indentation.
\<close>

definition beautifyParsed ::
  "('n json \<Rightarrow> indentSpec option \<Rightarrow> string) \<Rightarrow> FormatPreset \<Rightarrow> 'n json \<Rightarrow> string" where
  "beautifyParsed stringify preset parsed =
     (let parsed' = (if sortKeys preset then sortObjectKeys parsed else parsed)
      in formatJson stringify parsed' (indent preset))"

section \<open>Markdown formatting\<close>

text \<open>
  The characters that \<^verbatim>\<open>\s\<close>, \<^verbatim>\<open>trim\<close> and \<^verbatim>\<open>trimEnd\<close> treat as white space
  (tab, line feed, vertical tab, form feed, carriage return, space, no-break space), and
  the line terminators, which \<^verbatim>\<open>.\<close> in a regular expression does not match.
\<close>

definition isWhitespace :: "char \<Rightarrow> bool" where
  "isWhitespace c \<longleftrightarrow> c = CHR 0x09 \<or> c = CHR 0x0A \<or> c = CHR 0x0B \<or> c = CHR 0x0C
       \<or> c = CHR 0x0D \<or> c = CHR 0x20 \<or> c = CHR 0xA0"

definition isLineTerminator :: "char \<Rightarrow> bool" where
  "isLineTerminator c \<longleftrightarrow> c = CHR 0x0A \<or> c = CHR 0x0D"

definition trimStart :: "string \<Rightarrow> string" where
  "trimStart s = dropWhile isWhitespace s"

definition trimEnd :: "string \<Rightarrow> string" where
  "trimEnd s = rev (dropWhile isWhitespace (rev s))"

definition trim :: "string \<Rightarrow> string" where
  "trim s = trimEnd (trimStart s)"

text \<open>\<^verbatim>\<open>s.split('\n')\<close> and \<^verbatim>\<open>lines.join('\n')\<close>.\<close>

fun splitLines :: "string \<Rightarrow> string list" where
  "splitLines [] = [[]]"
| "splitLines (c # cs) =
     (if c = CHR 0x0A then [] # splitLines cs
      else (case splitLines cs of l # ls \<Rightarrow> (c # l) # ls | [] \<Rightarrow> [[c]]))"

fun joinLines :: "string list \<Rightarrow> string" where
  "joinLines [] = []"
| "joinLines [l] = l"
| "joinLines (l # ls) = l @ CHR 0x0A # joinLines ls"

text \<open>The Markdown presets; \<open>standardMarkdown\<close> is the entry \<^verbatim>\<open>standard\<close> of the table.\<close>

record MarkdownPreset =
  name :: string
  normalizeHeadings :: bool
  normalizeListIndent :: nat
  trimTrailingWhitespace :: bool
  ensureNewlineAtEnd :: bool
  normalizeBlankLines :: bool

definition standardMarkdown :: MarkdownPreset where
  "standardMarkdown = \<lparr>name = ''Standard'', normalizeHeadings = True, normalizeListIndent = 2,
     trimTrailingWhitespace = True, ensureNewlineAtEnd = True, normalizeBlankLines = True\<rparr>"

text \<open>
  \<^verbatim>\<open>line.match(/^(#{1,6})([^\s#].*)$/)\<close>: one to six \<^verbatim>\<open>#\<close>, then a character that is
  neither white space nor \<^verbatim>\<open>#\<close>, then characters other than line terminators up to
  the end of the line. The first group cannot stop before the last leading \<^verbatim>\<open>#\<close>, so
  it is the whole run of them. The result is the pair of the two groups.
\<close>

definition headingMatch :: "string \<Rightarrow> (string \<times> string) option" where
  "headingMatch line =
     (let hashes = takeWhile (\<lambda>c. c = CHR ''#'') line;
          rest = dropWhile (\<lambda>c. c = CHR ''#'') line
      in case rest of
           [] \<Rightarrow> None
         | c # others \<Rightarrow>
             if 1 \<le> length hashes \<and> length hashes \<le> 6 \<and> \<not> isWhitespace c
                \<and> \<not> list_ex isLineTerminator others
             then Some (hashes, c # others) else None)"

definition normalizeHeading :: "string \<Rightarrow> string" where
  "normalizeHeading line =
     (case headingMatch line of
        Some (hashes, text) \<Rightarrow> hashes @ '' '' @ trim text
      | None \<Rightarrow> line)"

text \<open>
  \<^verbatim>\<open>line.match(/^(\s*)([-*+])(\s+)(.*)$/)\<close> and \<^verbatim>\<open>line.match(/^(\s*)(\d+\.)(\s+)(.*)$/)\<close>.
  Each quantifier takes the longest run it can, and giving characters back never turns a
  failure into a match here; the result is the triple of the groups that the code uses
  (leading white space, marker, text).
\<close>

definition unorderedMatch :: "string \<Rightarrow> (string \<times> string \<times> string) option" where
  "unorderedMatch line =
     (let leadingSpace = takeWhile isWhitespace line
      in case dropWhile isWhitespace line of
           [] \<Rightarrow> None
         | m # rest \<Rightarrow>
             if (m = CHR ''-'' \<or> m = CHR ''*'' \<or> m = CHR ''+'')
                \<and> takeWhile isWhitespace rest \<noteq> []
                \<and> \<not> list_ex isLineTerminator (dropWhile isWhitespace rest)
             then Some (leadingSpace, [m], dropWhile isWhitespace rest) else None)"

definition orderedMatch :: "string \<Rightarrow> (string \<times> string \<times> string) option" where
  "orderedMatch line =
     (let leadingSpace = takeWhile isWhitespace line;
          afterSpace = dropWhile isWhitespace line;
          digits = takeWhile isDigit afterSpace
      in case dropWhile isDigit afterSpace of
           [] \<Rightarrow> None
         | d # rest \<Rightarrow>
             if digits \<noteq> [] \<and> d = CHR ''.''
                \<and> takeWhile isWhitespace rest \<noteq> []
                \<and> \<not> list_ex isLineTerminator (dropWhile isWhitespace rest)
             then Some (leadingSpace, digits @ ''.'', dropWhile isWhitespace rest) else None)"

definition normalizeListItem :: "nat \<Rightarrow> string \<Rightarrow> string" where
  "normalizeListItem indentSize line =
     (case unorderedMatch line of
        Some (leadingSpace, marker, text) \<Rightarrow>
          (let originalIndent = length leadingSpace;
               level = originalIndent div 2;
               newIndent = replicate (level * indentSize) CHR '' ''
           in newIndent @ marker @ '' '' @ text)
      | None \<Rightarrow>
          (case orderedMatch line of
             Some (leadingSpace, marker, text) \<Rightarrow>
               (let originalIndent = length leadingSpace;
                    level = originalIndent div 2;
                    newIndent = replicate (level * indentSize) CHR '' ''
                in newIndent @ marker @ '' '' @ text)
           | None \<Rightarrow> line))"

text \<open>The loop that drops a blank line when the line before it was blank too; the first
  argument is the counter \<^verbatim>\<open>consecutiveBlankLines\<close>.\<close>

fun collapseBlankLines :: "nat \<Rightarrow> string list \<Rightarrow> string list" where
  "collapseBlankLines consecutiveBlankLines [] = []"
| "collapseBlankLines consecutiveBlankLines (line # rest) =
     (if trim line = []
      then (if consecutiveBlankLines + 1 \<le> 1
            then line # collapseBlankLines (consecutiveBlankLines + 1) rest
            else collapseBlankLines (consecutiveBlankLines + 1) rest)
      else line # collapseBlankLines 0 rest)"

text \<open>
  \<^verbatim>\<open>formatMarkdown\<close>: \<open>formatLines\<close> is the sequence of rewriting passes over the
  variable \<^verbatim>\<open>lines\<close>, \<open>markdownLines\<close> is the value of \<^verbatim>\<open>lines\<close> when the passes are
  done, and \<open>formatMarkdown\<close> joins it and appends the final newline.
\<close>

definition formatLines :: "MarkdownPreset \<Rightarrow> string list \<Rightarrow> string list" where
  "formatLines preset lines0 =
     (let lines1 = (if trimTrailingWhitespace preset then map trimEnd lines0 else lines0);
          lines2 = (if normalizeHeadings preset then map normalizeHeading lines1 else lines1);
          lines3 = map (normalizeListItem (normalizeListIndent preset)) lines2
      in if normalizeBlankLines preset then collapseBlankLines 0 lines3 else lines3)"

definition markdownLines :: "string \<Rightarrow> MarkdownPreset \<Rightarrow> string list" where
  "markdownLines doc preset = formatLines preset (splitLines doc)"

definition endsWithNewline :: "string \<Rightarrow> bool" where
  "endsWithNewline s \<longleftrightarrow> s \<noteq> [] \<and> last s = CHR 0x0A"

definition formatMarkdown :: "string \<Rightarrow> MarkdownPreset \<Rightarrow> string" where
  "formatMarkdown doc preset =
     (let formatted = joinLines (markdownLines doc preset)
      in if ensureNewlineAtEnd preset \<and> \<not> endsWithNewline formatted
         then formatted @ [CHR 0x0A] else formatted)"

section \<open>Comparing two inputs\<close>

text \<open>
  The state slots that \<^verbatim>\<open>compareDiff\<close> writes. \<^verbatim>\<open>leftParsed\<close> and \<^verbatim>\<open>rightParsed\<close>
  hold \<^verbatim>\<open>null\<close>, a parsed JSON value or (for Markdown) the raw text;
  \<^verbatim>\<open>semanticDiff\<close> holds a delta of the diffing library or \<^verbatim>\<open>undefined\<close>.
\<close>

datatype ContentType = Json | Markdown

datatype 'n parsedSlot = NullValue | JsonValue "'n json" | RawText string

record ('n, 'd) Workspace =
  error :: string
  diffResult :: "DiffLine list option"
  leftParsed :: "'n parsedSlot"
  rightParsed :: "'n parsedSlot"
  semanticDiff :: "'d option"
  beautifiedOutput :: string

definition initialWorkspace :: "('n, 'd) Workspace" where
  "initialWorkspace = \<lparr>error = [], diffResult = None, leftParsed = NullValue,
     rightParsed = NullValue, semanticDiff = None, beautifiedOutput = []\<rparr>"

text \<open>
  \<^verbatim>\<open>compareDiff\<close> of the workspace component, as a function from the state before the
  call to the state after it. The platform's \<^verbatim>\<open>JSON.parse\<close> and \<^verbatim>\<open>JSON.stringify\<close>
  and the diffing library's \<^verbatim>\<open>diff\<close> are parameters; a parse that throws is
  \<open>Inl\<close> of the message of the error, which the \<^verbatim>\<open>catch\<close> block puts after the
  prefix \<^verbatim>\<open>Invalid JSON: \<close>.
\<close>

definition compareDiff ::
  "(string \<Rightarrow> string + 'n json) \<Rightarrow> ('n json \<Rightarrow> 'n json \<Rightarrow> 'd option)
     \<Rightarrow> ('n json \<Rightarrow> indentSpec option \<Rightarrow> string)
     \<Rightarrow> ContentType \<Rightarrow> string \<Rightarrow> string \<Rightarrow> ('n, 'd) Workspace \<Rightarrow> ('n, 'd) Workspace" where
  "compareDiff parse diff stringify contentType primaryInput secondaryInput st =
     (let st0 = st\<lparr>error := [], diffResult := None, leftParsed := NullValue,
                    rightParsed := NullValue, semanticDiff := None, beautifiedOutput := []\<rparr>
      in if trim primaryInput = [] \<or> trim secondaryInput = [] then
           st0\<lparr>error := ''Please enter ''
                    @ (if contentType = Markdown then ''markdown'' else ''JSON'')
                    @ '' in both panels to compare''\<rparr>
         else if contentType = Markdown then
           st0\<lparr>diffResult :=
                   Some (computeLineDiff (splitLines primaryInput) (splitLines secondaryInput)),
                leftParsed := RawText primaryInput,
                rightParsed := RawText secondaryInput\<rparr>
         else
           (case parse primaryInput of
              Inl msg \<Rightarrow> st0\<lparr>error := ''Invalid JSON: '' @ msg\<rparr>
            | Inr left \<Rightarrow>
                (case parse secondaryInput of
                   Inl msg \<Rightarrow> st0\<lparr>error := ''Invalid JSON: '' @ msg\<rparr>
                 | Inr right \<Rightarrow>
                     st0\<lparr>leftParsed := JsonValue left,
                          rightParsed := JsonValue right,
                          semanticDiff := diff left right,
                          diffResult :=
                            Some (computeLineDiff
                                    (splitLines (formatJson stringify left (IndentWidth 2)))
                                    (splitLines (formatJson stringify right (IndentWidth 2))))\<rparr>)))"

text \<open>
  Stand-ins for the three platform functions, used to run \<^verbatim>\<open>compareDiff\<close> on the
  inputs of the examples below: the parser accepts the text \<^verbatim>\<open>{}\<close> and rejects the
  empty text and the text \<^verbatim>\<open>{invalid\<close>, as \<^verbatim>\<open>JSON.parse\<close> does.
\<close>

definition exampleParse :: "string \<Rightarrow> string + nat json" where
  "exampleParse s =
     (if s = ''{}'' then Inr (JObj [])
      else if s = [] then Inl ''Unexpected end of JSON input''
      else Inl ''Unexpected token'')"

definition exampleDiff :: "nat json \<Rightarrow> nat json \<Rightarrow> unit option" where
  "exampleDiff l r = (if l = r then None else Some ())"

definition exampleStringify :: "nat json \<Rightarrow> indentSpec option \<Rightarrow> string" where
  "exampleStringify v ind = (if v = JObj [] then ''{}'' else ''null'')"

section \<open>Measures and invariants used in the statements\<close>

text \<open>
  Counting the units of an edit script by classification: the units that stand for a
  line of the left sequence only, for a line of the right sequence only, and for a line
  of both.
\<close>

definition leftUnits :: "DiffLine list \<Rightarrow> nat" where
  "leftUnits ds = length (filter (\<lambda>d. type d = Removed \<or> type d = ModifiedOld) ds)"
definition rightUnits :: "DiffLine list \<Rightarrow> nat" where
  "rightUnits ds = length (filter (\<lambda>d. type d = Added \<or> type d = ModifiedNew) ds)"
definition unchangedUnits :: "DiffLine list \<Rightarrow> nat" where
  "unchangedUnits ds = length (filter (\<lambda>d. type d = Unchanged) ds)"

text \<open>The bookkeeping invariant of the loop: the counts follow the two cursors.\<close>

definition countInv :: "DiffState \<Rightarrow> bool" where
  "countInv st \<longleftrightarrow> leftUnits (result st) + unchangedUnits (result st) = leftIdx st
      \<and> rightUnits (result st) + unchangedUnits (result st) = rightIdx st"

text \<open>
  Adjacency of the two halves of a modification, position by position: a
  \<open>ModifiedOld\<close> unit has a \<open>ModifiedNew\<close> unit right after it, a \<open>ModifiedNew\<close> unit
  has a \<open>ModifiedOld\<close> unit right before it.
\<close>

definition pairsInv :: "DiffLine list \<Rightarrow> bool" where
  "pairsInv ds \<longleftrightarrow> (\<forall>i<length ds.
      (type (ds ! i) = ModifiedOld \<longrightarrow> Suc i < length ds \<and> type (ds ! Suc i) = ModifiedNew)
    \<and> (type (ds ! i) = ModifiedNew \<longrightarrow> 0 < i \<and> type (ds ! (i - 1)) = ModifiedOld))"

text \<open>The \<^verbatim>\<open>reduce\<close> of \<^verbatim>\<open>sortObjectKeys\<close> for any list of keys, value function and
  start object.\<close>

definition rebuild :: "(string \<Rightarrow> 'a) \<Rightarrow> string list \<Rightarrow> (string \<times> 'a) list \<Rightarrow> (string \<times> 'a) list" where
  "rebuild f ks acc = fold (\<lambda>key sorted. objSet key (f key) sorted) ks acc"

section \<open>Line aligner: general facts\<close>

lemmas diff_eval = computeLineDiff_def initialDiffState_def diffLoop.simps loopCond_def
  diffStep_def push_def foundInRight_def foundInLeft_def scanAhead.simps lineAt_def Let_def


text \<open>
  An invariant rule for the loop: what holds at the start and is kept by every
  iteration holds of the state the loop stops in, whose \<open>result\<close> is the value returned.
\<close>

lemma diffLoop_invariant:
  assumes "P st" and "\<And>s. P s \<Longrightarrow> loopCond l r s \<Longrightarrow> P (diffStep l r s)"
  shows "\<exists>s'. P s' \<and> \<not> loopCond l r s' \<and> diffLoop l r st = result s'"
  using assms
proof (induction l r st rule: diffLoop.induct)
  case (1 l r st)
  show ?case
  proof (cases "loopCond l r st")
    case True
    then have "P (diffStep l r st)" using "1.prems" by blast
    from "1.IH"[OF True this "1.prems"(2)] True show ?thesis by (subst diffLoop.simps) simp
  next
    case False
    with "1.prems" show ?thesis by (subst diffLoop.simps) auto
  qed
qed

text \<open>How one iteration moves the cursors.\<close>

lemma diffStep_cursors:
  assumes "loopCond l r st"
  shows "leftIdx st \<le> leftIdx (diffStep l r st)"
    and "rightIdx st \<le> rightIdx (diffStep l r st)"
    and "leftIdx st + rightIdx st < leftIdx (diffStep l r st) + rightIdx (diffStep l r st)"
    and "leftIdx st \<le> length l \<Longrightarrow> leftIdx (diffStep l r st) \<le> length l"
    and "rightIdx st \<le> length r \<Longrightarrow> rightIdx (diffStep l r st) \<le> length r"
  using assms by (auto simp: loopCond_def diffStep_def push_def Let_def)



lemma diffStep_result_cases:
  "(\<exists>t c n. t \<noteq> ModifiedOld \<and> t \<noteq> ModifiedNew
       \<and> result (diffStep l r st) = result st @ [\<lparr>type = t, content = c, lineNumber = n\<rparr>])
   \<or> (\<exists>c n c' n'. result (diffStep l r st) =
         result st @ [\<lparr>type = ModifiedOld, content = c, lineNumber = n\<rparr>,
                      \<lparr>type = ModifiedNew, content = c', lineNumber = n'\<rparr>])"
  by (simp add: diffStep_def push_def Let_def)

section \<open>Line aligner: properties\<close>

text \<open>
  C1. The spec's scenario D expects, for left \<open>["a","c"]\<close> and right \<open>["a","b","c"]\<close>,
  the script \<open>[unchanged a, added b, unchanged c]\<close>. The code returns something else:
  at the second step the left line \<open>c\<close> is found ahead on the right, and the branch
  taken for that case emits \<open>removed c\<close> and advances the left cursor; the left side is
  then exhausted and the two remaining right lines are emitted as added.
\<close>

theorem computeLineDiff_pure_insertion:
  "computeLineDiff [''a'', ''c''] [''a'', ''b'', ''c''] =
     [\<lparr>type = Unchanged, content = ''a'', lineNumber = 1\<rparr>,
      \<lparr>type = Removed, content = ''c'', lineNumber = 2\<rparr>,
      \<lparr>type = Added, content = ''b'', lineNumber = 2\<rparr>,
      \<lparr>type = Added, content = ''c'', lineNumber = 3\<rparr>]"
  by (simp add: diff_eval)

text \<open>
  C2. As stated (removed plus modified-old units number the left lines, added plus
  modified-new units number the right lines) the totality property fails as soon as a
  line is unchanged: an unchanged unit stands for one line of each side.
\<close>

theorem totality_as_stated_counterexample:
  "leftUnits (computeLineDiff [''a''] [''a'']) \<noteq> length [''a'']"
  by (simp add: diff_eval leftUnits_def)

lemma countInv_step: "countInv st \<Longrightarrow> countInv (diffStep l r st)"
  by (auto simp: countInv_def diffStep_def push_def Let_def leftUnits_def rightUnits_def unchangedUnits_def)

text \<open>
  C2, amended. Counting the unchanged units on both sides, the edit script covers each
  input exactly: removed, modified-old and unchanged units together number the left
  lines, and added, modified-new and unchanged units together number the right lines.
\<close>

theorem totality_with_unchanged:
  "leftUnits (computeLineDiff l r) + unchangedUnits (computeLineDiff l r) = length l
   \<and> rightUnits (computeLineDiff l r) + unchangedUnits (computeLineDiff l r) = length r"
proof -
  let ?P = "\<lambda>s. countInv s \<and> leftIdx s \<le> length l \<and> rightIdx s \<le> length r"
  have init: "?P initialDiffState"
    by (simp add: countInv_def initialDiffState_def leftUnits_def rightUnits_def unchangedUnits_def)
  have step: "\<And>s. ?P s \<Longrightarrow> loopCond l r s \<Longrightarrow> ?P (diffStep l r s)"
    using countInv_step diffStep_cursors(4,5) by blast
  from diffLoop_invariant[of ?P, OF init step]
  obtain s' where "?P s'" "\<not> loopCond l r s'" "diffLoop l r initialDiffState = result s'"
    by blast
  then show ?thesis
    by (simp add: computeLineDiff_def countInv_def loopCond_def)
qed



lemma diffLoop_same:
  "i \<le> length L \<Longrightarrow>
   diffLoop L L \<lparr>result = acc, leftIdx = i, rightIdx = i\<rparr> =
     acc @ map (\<lambda>k. \<lparr>type = Unchanged, content = L ! k, lineNumber = k + 1\<rparr>) [i..<length L]"
proof (induction "length L - i" arbitrary: i acc)
  case 0
  then have "i = length L" by simp
  then show ?case by (subst diffLoop.simps) (simp add: loopCond_def)
next
  case (Suc n)
  then have lt: "i < length L" by simp
  have step: "diffStep L L \<lparr>result = acc, leftIdx = i, rightIdx = i\<rparr> =
      \<lparr>result = acc @ [\<lparr>type = Unchanged, content = L ! i, lineNumber = i + 1\<rparr>],
       leftIdx = Suc i, rightIdx = Suc i\<rparr>"
    using lt by (simp add: diffStep_def push_def lineAt_def Let_def)
  have "n = length L - Suc i" using Suc.hyps(2) by simp
  from Suc.hyps(1)[OF this] lt
  have IH: "diffLoop L L \<lparr>result = acc @ [\<lparr>type = Unchanged, content = L ! i, lineNumber = i + 1\<rparr>],
       leftIdx = Suc i, rightIdx = Suc i\<rparr> =
     (acc @ [\<lparr>type = Unchanged, content = L ! i, lineNumber = i + 1\<rparr>]) @
        map (\<lambda>k. \<lparr>type = Unchanged, content = L ! k, lineNumber = k + 1\<rparr>) [Suc i..<length L]"
    by simp
  have "diffLoop L L \<lparr>result = acc, leftIdx = i, rightIdx = i\<rparr> =
        diffLoop L L (diffStep L L \<lparr>result = acc, leftIdx = i, rightIdx = i\<rparr>)"
    using lt by (subst diffLoop.simps) (simp add: loopCond_def)
  then show ?case using IH step lt by (simp add: upt_conv_Cons)
qed

text \<open>
  C4. Aligning a sequence with itself gives one unchanged unit per line, in order, each
  carrying the line and its 1-based position, and nothing else.
\<close>

theorem identity_alignment:
  "computeLineDiff L L =
     map (\<lambda>k. \<lparr>type = Unchanged, content = L ! k, lineNumber = k + 1\<rparr>) [0..<length L]"
  using diffLoop_same[of 0 L "[]"] by (simp add: computeLineDiff_def initialDiffState_def)


lemma pairsInv_snoc:
  assumes "pairsInv ds" "type d \<noteq> ModifiedOld" "type d \<noteq> ModifiedNew"
  shows "pairsInv (ds @ [d])"
  unfolding pairsInv_def
proof (intro allI impI)
  fix i assume i: "i < length (ds @ [d])"
  show "(type ((ds @ [d]) ! i) = ModifiedOld \<longrightarrow>
          Suc i < length (ds @ [d]) \<and> type ((ds @ [d]) ! Suc i) = ModifiedNew) \<and>
        (type ((ds @ [d]) ! i) = ModifiedNew \<longrightarrow> 0 < i \<and> type ((ds @ [d]) ! (i - 1)) = ModifiedOld)"
  proof (cases "i < length ds")
    case True
    with assms(1) show ?thesis
      by (auto simp: pairsInv_def nth_append)
  next
    case False
    with i have "i = length ds" by simp
    with assms(2,3) show ?thesis by simp
  qed
qed

lemma pairsInv_snoc2:
  assumes "pairsInv ds" "type a = ModifiedOld" "type b = ModifiedNew"
  shows "pairsInv (ds @ [a, b])"
  unfolding pairsInv_def
proof (intro allI impI)
  fix i assume i: "i < length (ds @ [a, b])"
  consider "i < length ds" | "i = length ds" | "i = Suc (length ds)" using i by force
  then show "(type ((ds @ [a, b]) ! i) = ModifiedOld \<longrightarrow>
          Suc i < length (ds @ [a, b]) \<and> type ((ds @ [a, b]) ! Suc i) = ModifiedNew) \<and>
        (type ((ds @ [a, b]) ! i) = ModifiedNew \<longrightarrow> 0 < i \<and> type ((ds @ [a, b]) ! (i - 1)) = ModifiedOld)"
  proof cases
    case 1
    with assms(1) show ?thesis by (auto simp: pairsInv_def nth_append)
  next
    case 2
    with assms(2,3) show ?thesis by (simp add: nth_append)
  next
    case 3
    with assms(2,3) show ?thesis by (simp add: nth_append)
  qed
qed

lemma pairsInv_step:
  assumes "pairsInv (result st)"
  shows "pairsInv (result (diffStep l r st))"
  using diffStep_result_cases[of l r st]
proof (elim disjE exE conjE)
  fix t c n
  assume "t \<noteq> ModifiedOld" "t \<noteq> ModifiedNew"
    and eq: "result (diffStep l r st) = result st @ [\<lparr>type = t, content = c, lineNumber = n\<rparr>]"
  then show ?thesis using pairsInv_snoc[OF assms, of "\<lparr>type = t, content = c, lineNumber = n\<rparr>"] by simp
next
  fix c n c' n'
  assume eq: "result (diffStep l r st) =
         result st @ [\<lparr>type = ModifiedOld, content = c, lineNumber = n\<rparr>,
                      \<lparr>type = ModifiedNew, content = c', lineNumber = n'\<rparr>]"
  then show ?thesis
    using pairsInv_snoc2[OF assms, of "\<lparr>type = ModifiedOld, content = c, lineNumber = n\<rparr>"
        "\<lparr>type = ModifiedNew, content = c', lineNumber = n'\<rparr>"] by simp
qed

text \<open>
  C5. In every edit script returned by \<open>computeLineDiff\<close>, a modified-old unit is
  immediately followed by a modified-new unit and a modified-new unit is immediately
  preceded by a modified-old unit. (A merged unit does not exist in \<open>DiffType\<close>.)
\<close>

theorem modified_pairs_adjacent:
  assumes "i < length (computeLineDiff l r)"
  shows "(type (computeLineDiff l r ! i) = ModifiedOld \<longrightarrow>
            Suc i < length (computeLineDiff l r) \<and> type (computeLineDiff l r ! Suc i) = ModifiedNew)
       \<and> (type (computeLineDiff l r ! i) = ModifiedNew \<longrightarrow>
            0 < i \<and> type (computeLineDiff l r ! (i - 1)) = ModifiedOld)"
proof -
  have init: "pairsInv (result initialDiffState)" by (simp add: pairsInv_def initialDiffState_def)
  have "\<exists>s'. pairsInv (result s') \<and> \<not> loopCond l r s' \<and> diffLoop l r initialDiffState = result s'"
    by (rule diffLoop_invariant[where P = "\<lambda>s. pairsInv (result s)"]) (simp_all add: init pairsInv_step)
  then obtain s' :: DiffState where "pairsInv (result s')" "diffLoop l r initialDiffState = result s'" by blast
  then have "pairsInv (computeLineDiff l r)" by (simp add: computeLineDiff_def)
  with assms show ?thesis unfolding pairsInv_def by blast
qed

theorem modified_pairs_adjacent_witness:
  "1 < length (computeLineDiff [''a'', ''b''] [''a'', ''x''])
   \<and> type (computeLineDiff [''a'', ''b''] [''a'', ''x''] ! 1) = ModifiedOld
   \<and> type (computeLineDiff [''a'', ''b''] [''a'', ''x''] ! 2) = ModifiedNew"
  using modified_pairs_adjacent[of 1 "[''a'', ''b'']" "[''a'', ''x'']"]
  by (simp add: diff_eval)

lemma diffLoop_iterations:
  assumes "leftIdx st \<le> length l" and "rightIdx st \<le> length r"
  shows "\<exists>n. n \<le> (length l - leftIdx st) + (length r - rightIdx st)
           \<and> (\<forall>k<n. loopCond l r ((diffStep l r ^^ k) st))
           \<and> \<not> loopCond l r ((diffStep l r ^^ n) st)
           \<and> leftIdx ((diffStep l r ^^ n) st) = length l
           \<and> rightIdx ((diffStep l r ^^ n) st) = length r
           \<and> diffLoop l r st = result ((diffStep l r ^^ n) st)"
  using assms
proof (induction l r st rule: diffLoop.induct)
  case (1 l r st)
  show ?case
  proof (cases "loopCond l r st")
    case False
    then have "leftIdx st = length l" "rightIdx st = length r"
      using "1.prems" by (auto simp: loopCond_def)
    moreover have "diffLoop l r st = result st"
      using False by (subst diffLoop.simps) simp
    ultimately show ?thesis using False by (intro exI[of _ 0]) simp
  next
    case True
    let ?s = "diffStep l r st"
    have b: "leftIdx ?s \<le> length l" "rightIdx ?s \<le> length r"
      using diffStep_cursors(4,5)[OF True] "1.prems" by auto
    from "1.IH"[OF True b] obtain n where
      n: "n \<le> (length l - leftIdx ?s) + (length r - rightIdx ?s)"
      and run: "\<forall>k<n. loopCond l r ((diffStep l r ^^ k) ?s)"
      and stop: "\<not> loopCond l r ((diffStep l r ^^ n) ?s)"
      and fin: "leftIdx ((diffStep l r ^^ n) ?s) = length l" "rightIdx ((diffStep l r ^^ n) ?s) = length r"
      and res: "diffLoop l r ?s = result ((diffStep l r ^^ n) ?s)"
      by blast
    have shift: "\<And>k. (diffStep l r ^^ Suc k) st = (diffStep l r ^^ k) ?s"
      by (simp add: funpow_swap1)
    have "Suc n \<le> (length l - leftIdx st) + (length r - rightIdx st)"
      using n diffStep_cursors(1,2,3)[OF True] b by linarith
    moreover have "\<forall>k<Suc n. loopCond l r ((diffStep l r ^^ k) st)"
    proof (intro allI impI)
      fix k assume "k < Suc n"
      then show "loopCond l r ((diffStep l r ^^ k) st)"
        using True run shift by (cases k) auto
    qed
    moreover have "\<not> loopCond l r ((diffStep l r ^^ Suc n) st)"
      using stop shift by simp
    moreover have "leftIdx ((diffStep l r ^^ Suc n) st) = length l"
      "rightIdx ((diffStep l r ^^ Suc n) st) = length r"
      using fin shift by simp_all
    moreover have "diffLoop l r st = result ((diffStep l r ^^ Suc n) st)"
      using res True shift by (subst diffLoop.simps) simp
    ultimately show ?thesis by blast
  qed
qed

text \<open>
  C6. Every iteration of the loop leaves neither cursor behind and strictly advances
  the sum of the two, and the loop stops after at most \<open>length l + length r\<close>
  iterations, with both cursors at the ends of their sequences; the value returned is
  the \<open>result\<close> of that state.
\<close>

theorem computeLineDiff_terminates:
  "(\<forall>st. loopCond l r st \<longrightarrow>
       leftIdx st \<le> leftIdx (diffStep l r st) \<and> rightIdx st \<le> rightIdx (diffStep l r st)
     \<and> leftIdx st + rightIdx st < leftIdx (diffStep l r st) + rightIdx (diffStep l r st))
   \<and> (\<exists>n\<le>length l + length r.
         (\<forall>k<n. loopCond l r ((diffStep l r ^^ k) initialDiffState))
       \<and> \<not> loopCond l r ((diffStep l r ^^ n) initialDiffState)
       \<and> leftIdx ((diffStep l r ^^ n) initialDiffState) = length l
       \<and> rightIdx ((diffStep l r ^^ n) initialDiffState) = length r
       \<and> computeLineDiff l r = result ((diffStep l r ^^ n) initialDiffState))"
proof (rule conjI)
  show "\<forall>st. loopCond l r st \<longrightarrow>
       leftIdx st \<le> leftIdx (diffStep l r st) \<and> rightIdx st \<le> rightIdx (diffStep l r st)
     \<and> leftIdx st + rightIdx st < leftIdx (diffStep l r st) + rightIdx (diffStep l r st)"
    using diffStep_cursors(1,2,3) by blast
next
  have "leftIdx initialDiffState \<le> length l" "rightIdx initialDiffState \<le> length r"
    by (simp_all add: initialDiffState_def)
  from diffLoop_iterations[OF this]
  show "\<exists>n\<le>length l + length r.
         (\<forall>k<n. loopCond l r ((diffStep l r ^^ k) initialDiffState))
       \<and> \<not> loopCond l r ((diffStep l r ^^ n) initialDiffState)
       \<and> leftIdx ((diffStep l r ^^ n) initialDiffState) = length l
       \<and> rightIdx ((diffStep l r ^^ n) initialDiffState) = length r
       \<and> computeLineDiff l r = result ((diffStep l r ^^ n) initialDiffState)"
    by (simp add: computeLineDiff_def initialDiffState_def)
qed

theorem computeLineDiff_terminates_witness:
  "loopCond [''a''] [''b''] initialDiffState
   \<and> leftIdx initialDiffState + rightIdx initialDiffState
       < leftIdx (diffStep [''a''] [''b''] initialDiffState)
         + rightIdx (diffStep [''a''] [''b''] initialDiffState)"
proof -
  have c: "loopCond [''a''] [''b''] initialDiffState"
    by (simp add: loopCond_def initialDiffState_def)
  from computeLineDiff_terminates[of "[''a'']" "[''b'']"] c show ?thesis by blast
qed

section \<open>Key sorting: general facts\<close>

lemma rebuild_Nil [simp]: "rebuild f [] acc = acc"
  by (simp add: rebuild_def)

lemma rebuild_Cons [simp]: "rebuild f (k # ks) acc = rebuild f ks (objSet k (f k) acc)"
  by (simp add: rebuild_def)

lemma sortObjectKeys_JObj:
  "sortObjectKeys (JObj obj) =
     JObj (rebuild (\<lambda>k. sortObjectKeys (objGet obj k)) (sort (objectKeys obj)) [])"
  by (simp add: rebuild_def)

lemma insertIndexed_keys:
  "set (objectKeys (insertIndexed n key v obj)) = insert key (set (objectKeys obj))"
proof (induction obj)
  case Nil
  then show ?case by (simp add: objectKeys_def)
next
  case (Cons p obj)
  obtain k w where p: "p = (k, w)" by (cases p)
  show ?case using Cons.IH unfolding p objectKeys_def
    by (cases "arrayIndex k") auto
qed

lemma insertIndexed_distinct:
  "key \<notin> set (objectKeys obj) \<Longrightarrow> distinct (objectKeys obj)
     \<Longrightarrow> distinct (objectKeys (insertIndexed n key v obj))"
proof (induction obj)
  case Nil
  then show ?case by (simp add: objectKeys_def)
next
  case (Cons p obj)
  obtain k w where p: "p = (k, w)" by (cases p)
  from Cons.prems have "key \<notin> set (objectKeys obj)" "distinct (objectKeys obj)"
    by (simp_all add: objectKeys_def)
  from Cons.IH[OF this] have IH: "distinct (objectKeys (insertIndexed n key v obj))" .
  have "k \<notin> set (objectKeys (insertIndexed n key v obj))"
    using Cons.prems p by (auto simp: insertIndexed_keys) (auto simp: objectKeys_def)
  with IH Cons.prems p show ?case
    by (auto simp: objectKeys_def split: option.splits)
qed

lemma insertIndexed_map_of:
  "key \<notin> set (objectKeys obj) \<Longrightarrow> map_of (insertIndexed n key v obj) = (map_of obj)(key \<mapsto> v)"
proof (induction obj)
  case Nil
  then show ?case by simp
next
  case (Cons p obj)
  obtain k w where p: "p = (k, w)" by (cases p)
  from Cons.prems p have ne: "k \<noteq> key" and "key \<notin> set (objectKeys obj)"
    by (auto simp: objectKeys_def)
  from Cons.IH[OF this(2)] have IH: "map_of (insertIndexed n key v obj) = (map_of obj)(key \<mapsto> v)" .
  show ?case using p ne IH by (auto simp: fun_upd_twist split: option.splits)
qed

lemma append_map_of:
  assumes "key \<notin> set (objectKeys obj)"
  shows "[key \<mapsto> v] ++ map_of obj = (map_of obj)(key \<mapsto> v)"
proof -
  have "map_of obj key = None"
    using assms by (simp add: map_of_eq_None_iff objectKeys_def)
  then show ?thesis
    by (auto simp: fun_eq_iff map_add_def split: option.splits)
qed

lemma objSet_keys:
  "set (objectKeys (objSet key v obj)) =
     (if key = ''__proto__'' then set (objectKeys obj) else insert key (set (objectKeys obj)))"
  by (auto simp: objSet_def insertIndexed_keys split: option.splits)
     (auto simp: objectKeys_def AList.update_keys)

lemma objSet_distinct:
  "distinct (objectKeys obj) \<Longrightarrow> distinct (objectKeys (objSet key v obj))"
  using AList.distinct_update[of obj key v]
  by (auto simp: objSet_def insertIndexed_distinct split: option.splits)
     (auto simp: objectKeys_def)

lemma objSet_map_of:
  "map_of (objSet key v obj) =
     (if key = ''__proto__'' then map_of obj else (map_of obj)(key \<mapsto> v))"
  by (simp add: objSet_def insertIndexed_map_of append_map_of AList.update_conv' split: option.splits)

lemma objSet_twice: "objSet key v (objSet key v obj) = objSet key v obj"
proof (cases "key = ''__proto__''")
  case True
  then show ?thesis by (simp add: objSet_def)
next
  case False
  let ?o = "objSet key v obj"
  have "key \<in> set (objectKeys ?o)" using False by (simp add: objSet_keys)
  then have "objSet key v ?o = AList.update key v ?o" using False by (simp add: objSet_def)
  also have "\<dots> = ?o"
    by (rule AList.update_triv) (simp add: objSet_map_of False)
  finally show ?thesis .
qed

lemma rebuild_keys:
  "set (objectKeys (rebuild f ks acc)) = set (objectKeys acc) \<union> (set ks - {''__proto__''})"
  by (induction ks arbitrary: acc) (auto simp: objSet_keys)

lemma rebuild_distinct:
  "distinct (objectKeys acc) \<Longrightarrow> distinct (objectKeys (rebuild f ks acc))"
  by (induction ks arbitrary: acc) (auto simp: objSet_distinct)

lemma rebuild_map_of:
  "map_of (rebuild f ks acc) k =
     (if k \<in> set ks \<and> k \<noteq> ''__proto__'' then Some (f k) else map_of acc k)"
  by (induction ks arbitrary: acc) (auto simp: objSet_map_of)

lemma rebuild_filter_proto:
  "rebuild f (filter (\<lambda>k. k \<noteq> ''__proto__'') ks) acc = rebuild f ks acc"
  by (induction ks arbitrary: acc) (auto simp: objSet_def)

lemma rebuild_remdups_adj: "rebuild f (remdups_adj ks) acc = rebuild f ks acc"
  by (induction ks arbitrary: acc rule: remdups_adj.induct) (auto simp: objSet_twice)

lemma rebuild_cong:
  "(\<And>k. k \<in> set ks \<Longrightarrow> f k = g k) \<Longrightarrow> rebuild f ks acc = rebuild g ks acc"
  by (induction ks arbitrary: acc) auto

lemma sorted_remdups_adj_strings:
  fixes ks :: "string list"
  shows "sorted ks \<Longrightarrow> sorted (remdups_adj ks)"
  by (induction ks rule: remdups_adj.induct) auto

lemma distinct_remdups_adj_strings:
  fixes ks :: "string list"
  shows "sorted ks \<Longrightarrow> distinct (remdups_adj ks)"
  by (induction ks rule: remdups_adj.induct) auto

lemma objectKeys_Nil [simp]: "objectKeys [] = []"
  by (simp add: objectKeys_def)

lemma sorted_keys_of_rebuild:
  fixes ks :: "string list"
  assumes "sorted ks"
  shows "sort (objectKeys (rebuild f ks [])) = remdups_adj (filter (\<lambda>k. k \<noteq> ''__proto__'') ks)"
proof (rule sorted_distinct_set_unique)
  show "sorted (sort (objectKeys (rebuild f ks [])))" by simp
  show "distinct (sort (objectKeys (rebuild f ks [])))"
    by (simp add: rebuild_distinct)
  have "sorted (filter (\<lambda>k. k \<noteq> ''__proto__'') ks)"
    using assms by (rule sorted_wrt_filter)
  then show "sorted (remdups_adj (filter (\<lambda>k. k \<noteq> ''__proto__'') ks))"
    "distinct (remdups_adj (filter (\<lambda>k. k \<noteq> ''__proto__'') ks))"
    by (rule sorted_remdups_adj_strings, rule distinct_remdups_adj_strings)
  show "set (sort (objectKeys (rebuild f ks []))) =
        set (remdups_adj (filter (\<lambda>k. k \<noteq> ''__proto__'') ks))"
    by (auto simp: rebuild_keys)
qed

lemma rebuild_again:
  fixes ks :: "string list"
  assumes "sorted ks" and "\<And>k. k \<in> set ks \<Longrightarrow> g (f k) = f k"
  shows "rebuild (\<lambda>k. g (objGet (rebuild f ks []) k)) (sort (objectKeys (rebuild f ks []))) []
           = rebuild f ks []"
proof -
  let ?R = "rebuild f ks []"
  let ?ks' = "remdups_adj (filter (\<lambda>k. k \<noteq> ''__proto__'') ks)"
  have "rebuild (\<lambda>k. g (objGet ?R k)) (sort (objectKeys ?R)) [] = rebuild (\<lambda>k. g (objGet ?R k)) ?ks' []"
    by (simp only: sorted_keys_of_rebuild[OF assms(1)])
  also have "\<dots> = rebuild f ?ks' []"
  proof (rule rebuild_cong)
    fix k assume "k \<in> set ?ks'"
    then have k: "k \<in> set ks" "k \<noteq> ''__proto__''" by auto
    then have "objGet ?R k = f k" by (simp add: objGet_def rebuild_map_of)
    then show "g (objGet ?R k) = f k" using assms(2) k(1) by simp
  qed
  also have "\<dots> = ?R"
    by (simp only: rebuild_remdups_adj rebuild_filter_proto)
  finally show ?thesis .
qed

lemma sortObjectKeys_idem: "sortObjectKeys (sortObjectKeys v) = sortObjectKeys v"
proof (induction v rule: sortObjectKeys.induct)
  case (5 xs)
  then show ?case by simp
next
  case (6 obj)
  have "sorted (sort (objectKeys obj))" by simp
  from rebuild_again[where g = sortObjectKeys and f = "\<lambda>k. sortObjectKeys (objGet obj k)", OF this]
  show ?case using 6 by (simp only: sortObjectKeys_JObj)
qed simp_all

text \<open>
  What \<^verbatim>\<open>sortObjectKeys\<close> does to an object: the result has each key once, its keys are
  those of the argument other than \<^verbatim>\<open>__proto__\<close>, and each key holds the sorted
  version of the value it held.
\<close>

lemma sortObjectKeys_object:
  "\<exists>obj'. sortObjectKeys (JObj obj) = JObj obj'
      \<and> distinct (objectKeys obj')
      \<and> set (objectKeys obj') = set (objectKeys obj) - {''__proto__''}
      \<and> (\<forall>k \<in> set (objectKeys obj'). objGet obj' k = sortObjectKeys (objGet obj k))"
proof -
  let ?f = "\<lambda>k. sortObjectKeys (objGet obj k)"
  let ?R = "rebuild ?f (sort (objectKeys obj)) []"
  have "sortObjectKeys (JObj obj) = JObj ?R" by (rule sortObjectKeys_JObj)
  moreover have "distinct (objectKeys ?R)" by (simp add: rebuild_distinct)
  moreover have keys: "set (objectKeys ?R) = set (objectKeys obj) - {''__proto__''}"
    by (simp add: rebuild_keys)
  moreover have "\<forall>k \<in> set (objectKeys ?R). objGet ?R k = ?f k"
    using keys by (simp add: objGet_def rebuild_map_of)
  ultimately show ?thesis by blast
qed

section \<open>Key sorting: properties\<close>

text \<open>
  C7. Sorting the keys of a value that has already been through \<^verbatim>\<open>sortObjectKeys\<close>
  changes nothing; consequently, formatting the sorted value with a preset that sorts
  keys gives the same document as formatting the original value with that preset,
  whatever the serialiser and the indentation.
\<close>

theorem key_sort_idempotent:
  "sortObjectKeys (sortObjectKeys v) = sortObjectKeys v
   \<and> beautifyParsed stringify (preset\<lparr>sortKeys := True\<rparr>) (sortObjectKeys v)
       = beautifyParsed stringify (preset\<lparr>sortKeys := True\<rparr>) v"
  by (simp add: beautifyParsed_def sortObjectKeys_idem)

text \<open>
  C10. The claim that \<^verbatim>\<open>sortObjectKeys\<close> returns, for an object, an object with exactly
  the same key set does not hold for an object with a key \<^verbatim>\<open>__proto__\<close>, which
  \<^verbatim>\<open>JSON.parse\<close> creates from the text \<^verbatim>\<open>{"__proto__": 1, "a": 2}\<close>: the rebuilt
  object has lost that key and its value.
\<close>

theorem sortObjectKeys_drops_proto_key:
  "sortObjectKeys (JObj [(''__proto__'', JNum (1::int)), (''a'', JNum 2)]) = JObj [(''a'', JNum 2)]"
  by (simp add: objSet_def objGet_def objectKeys_def arrayIndex_def isDigit_def decimalValue_def)

section \<open>Markdown formatting: general facts\<close>

lemmas md_eval = formatMarkdown_def markdownLines_def formatLines_def endsWithNewline_def normalizeListItem_def
  orderedMatch_def unorderedMatch_def normalizeHeading_def headingMatch_def trim_def trimEnd_def
  trimStart_def isWhitespace_def isLineTerminator_def isDigit_def standardMarkdown_def Let_def




lemma trimEnd_idem: "trimEnd (trimEnd s) = trimEnd s"
proof -
  have "dropWhile isWhitespace (dropWhile isWhitespace (rev s)) = dropWhile isWhitespace (rev s)"
    by (simp add: dropWhile_idem)
  then show ?thesis by (simp add: trimEnd_def)
qed























text \<open>
  A carriage return inside the heading text keeps the pattern from matching (\<^verbatim>\<open>.\<close>
  does not match it), and the line is then left as it is.
\<close>

lemma heading_inner_carriage_return:
  "formatMarkdown (''#a'' @ [CHR 0x0D] @ ''b'') standardMarkdown
     = ''#a'' @ [CHR 0x0D] @ ''b'' @ [CHR 0x0A]"
  by (simp add: md_eval)

section \<open>Markdown formatting: properties\<close>




section \<open>Comparing two inputs: properties\<close>

text \<open>
  C9. For JSON content and two inputs that have passed the emptiness test which precedes
  parsing, if the first input fails to parse, or the first parses and the second fails,
  the state left by \<^verbatim>\<open>compareDiff\<close> holds the message of the failed parse after the
  prefix \<^verbatim>\<open>Invalid JSON: \<close> and nothing else: no diff result, no parsed values, no
  semantic delta. The state does not depend on the serialiser or on the diffing library.
\<close>

theorem parse_error_fail_fast:
  assumes "trim primaryInput \<noteq> []" and "trim secondaryInput \<noteq> []"
    and "parse primaryInput = Inl msg
         \<or> (\<exists>left. parse primaryInput = Inr left \<and> parse secondaryInput = Inl msg)"
  shows "compareDiff parse diff stringify Json primaryInput secondaryInput st =
           st\<lparr>error := ''Invalid JSON: '' @ msg, diffResult := None, leftParsed := NullValue,
              rightParsed := NullValue, semanticDiff := None, beautifiedOutput := []\<rparr>"
  using assms(3)
proof
  assume "parse primaryInput = Inl msg"
  then show ?thesis using assms(1,2) by (simp add: compareDiff_def Let_def)
next
  assume "\<exists>left. parse primaryInput = Inr left \<and> parse secondaryInput = Inl msg"
  then obtain left where "parse primaryInput = Inr left" "parse secondaryInput = Inl msg"
    by blast
  then show ?thesis using assms(1,2) by (simp add: compareDiff_def Let_def)
qed


theorem parse_error_fail_fast_witness:
  "compareDiff exampleParse exampleDiff exampleStringify Json ''{invalid'' ''{}'' initialWorkspace =
     \<lparr>error = ''Invalid JSON: Unexpected token'', diffResult = None, leftParsed = NullValue,
      rightParsed = NullValue, semanticDiff = None, beautifiedOutput = []\<rparr>"
proof -
  have nb: "trim ''{invalid'' \<noteq> []" "trim ''{}'' \<noteq> []"
    by (simp_all add: trim_def trimEnd_def trimStart_def isWhitespace_def)
  have "exampleParse ''{invalid'' = Inl ''Unexpected token''
        \<or> (\<exists>left. exampleParse ''{invalid'' = Inr left \<and> exampleParse ''{}'' = Inl ''Unexpected token'')"
    by (simp add: exampleParse_def)
  from parse_error_fail_fast[OF nb this, of exampleDiff exampleStringify initialWorkspace]
  show ?thesis by (simp add: initialWorkspace_def)
qed

end
